theory Spec2Isabelle
  imports Main "HOL-Library.Char_ord" "HOL-Library.List_Lexorder" "HOL-Library.Multiset"
begin

section \<open>Diagnostics (langkit/diagnostics.py)\<close>

text \<open>
  \<^verbatim>\<open>class Severity(enum.IntEnum)\<close>: the three severities of a diagnostic.
\<close>

datatype Severity = warning | error | non_blocking_error

text \<open>
  The host-level exceptions the modelled code can raise. \<^verbatim>\<open>DiagnosticError\<close> is the
  exception of the diagnostics module; the others are Python's own.
\<close>

datatype exn = DiagnosticError | AssertionError | AttributeError | KeyError | IndexError

text \<open>
  The process-wide state of the diagnostics module: the class attribute
  \<^verbatim>\<open>Diagnostics.has_pending_error\<close> and what has been printed so far. The layout of the
  printed text (colours, location context) belongs to the formatting helpers; a printed
  diagnostic is recorded as its severity and its message lines.
\<close>

record diagnostics =
  has_pending_error :: bool
  printed :: "(Severity \<times> string list) list"

definition Diagnostics_initial :: diagnostics where
  "Diagnostics_initial = \<lparr>has_pending_error = False, printed = []\<rparr>"

text \<open>
  \<^verbatim>\<open>message_lines[:1] + [indent + line for line in message_lines[1:]]\<close> with
  \<^verbatim>\<open>indent = ' ' * 4\<close>; a message is the list of its lines.
\<close>

definition indent_message :: "string list \<Rightarrow> string list" where
  "indent_message message_lines =
     take 1 message_lines @ map (\<lambda>line. ''    '' @ line) (drop 1 message_lines)"

text \<open>
  \<^verbatim>\<open>check_source_language(predicate, message, severity, do_raise, ok_for_codegen)\<close>.
  The first argument \<open>emitting\<close> stands for the compile context found by
  \<^verbatim>\<open>get_context(or_none=True)\<close>: it is true when there is a context whose emitter is
  set, which is when the assertion \<^verbatim>\<open>ctx is None or ctx.emitter is None\<close> fails.
  The result pairs the outcome (an exception, or a normal return) with the state of the
  diagnostics module, which survives an exception.
\<close>

definition check_source_language ::
  "bool \<Rightarrow> bool \<Rightarrow> string list \<Rightarrow> Severity \<Rightarrow> bool \<Rightarrow> bool \<Rightarrow> diagnostics
     \<Rightarrow> (exn + unit) \<times> diagnostics" where
  "check_source_language emitting predicate message severity do_raise ok_for_codegen d =
     (if \<not> ok_for_codegen \<and> emitting then (Inl AssertionError, d)
      else if \<not> predicate then
        (let d' = d\<lparr>printed := printed d @ [(severity, indent_message message)]\<rparr>
         in if severity = error \<and> do_raise then (Inl DiagnosticError, d')
            else if severity = non_blocking_error
              then (Inr (), d'\<lparr>has_pending_error := True\<rparr>)
            else (Inr (), d'))
      else (Inr (), d))"

text \<open>
  \<^verbatim>\<open>check_multiple(predicates_and_messages, severity)\<close>: one check per pair, in order; the
  first exception ends the loop.
\<close>

fun check_multiple ::
  "bool \<Rightarrow> (bool \<times> string list) list \<Rightarrow> Severity \<Rightarrow> diagnostics \<Rightarrow> (exn + unit) \<times> diagnostics" where
  "check_multiple emitting [] severity d = (Inr (), d)"
| "check_multiple emitting ((predicate, message) # rest) severity d =
     (case check_source_language emitting predicate message severity True False d of
        (Inl e, d') \<Rightarrow> (Inl e, d')
      | (Inr u, d') \<Rightarrow> check_multiple emitting rest severity d')"

text \<open>\<^verbatim>\<open>errors_checkpoint()\<close>.\<close>

definition errors_checkpoint :: "diagnostics \<Rightarrow> (exn + unit) \<times> diagnostics" where
  "errors_checkpoint d =
     (if has_pending_error d then (Inl DiagnosticError, d\<lparr>has_pending_error := False\<rparr>)
      else (Inr (), d))"

text \<open>
  A history of the calls made to the two entry points during one process. The flag is a
  class attribute, so it is threaded through every call whether or not the call raised.
\<close>

datatype call =
  Check bool bool "string list" Severity bool bool
| Checkpoint

fun do_call :: "call \<Rightarrow> diagnostics \<Rightarrow> (exn + unit) \<times> diagnostics" where
  "do_call (Check emitting predicate message severity do_raise ok_for_codegen) d =
     check_source_language emitting predicate message severity do_raise ok_for_codegen d"
| "do_call Checkpoint d = errors_checkpoint d"

fun run_calls :: "call list \<Rightarrow> diagnostics \<Rightarrow> diagnostics" where
  "run_calls [] d = d"
| "run_calls (c # cs) d = run_calls cs (snd (do_call c d))"

text \<open>
  A call records a non-blocking error when it is a check of a false predicate at
  non-blocking severity that gets past the code generation assertion.
\<close>

fun records_error :: "call \<Rightarrow> bool" where
  "records_error (Check emitting predicate message severity do_raise ok_for_codegen) =
     (\<not> predicate \<and> severity = non_blocking_error \<and> (ok_for_codegen \<or> \<not> emitting))"
| "records_error Checkpoint = False"

fun is_checkpoint :: "call \<Rightarrow> bool" where
  "is_checkpoint Checkpoint = True"
| "is_checkpoint (Check emitting predicate message severity do_raise ok_for_codegen) = False"

text \<open>
  Whether a non-blocking error was recorded after the last checkpoint of the history (or
  since the start of the process when there was none).
\<close>

definition recorded_since_checkpoint :: "call list \<Rightarrow> bool" where
  "recorded_since_checkpoint cs =
     list_ex records_error (takeWhile (\<lambda>c. \<not> is_checkpoint c) (rev cs))"

section \<open>The type registry (CompiledTypeRepo.type_dict)\<close>

text \<open>
  Python's truth value of a \<^verbatim>\<open>str|None\<close>: \<^verbatim>\<open>None\<close> and the empty string are false.
\<close>

fun truthy_str :: "string option \<Rightarrow> bool" where
  "truthy_str None = False"
| "truthy_str (Some s) = (s \<noteq> [])"

text \<open>
  The end of \<^verbatim>\<open>CompiledType.__init__\<close>:
  \<^verbatim>\<open>type_repo_name = type_repo_name or dsl_name or name.camel\<close> and
  \<^verbatim>\<open>CompiledTypeRepo.type_dict[type_repo_name] = self\<close>. A type instance is identified
  by a number (its object identity); the registry maps names to instances.
\<close>

definition type_repo_key :: "string option \<Rightarrow> string option \<Rightarrow> string \<Rightarrow> string" where
  "type_repo_key type_repo_name dsl_name name_camel =
     (if truthy_str type_repo_name then the type_repo_name
      else if truthy_str dsl_name then the dsl_name
      else name_camel)"

definition CompiledType_register ::
  "string option \<Rightarrow> string option \<Rightarrow> string \<Rightarrow> nat \<Rightarrow> (string \<rightharpoonup> nat) \<Rightarrow> (string \<rightharpoonup> nat)" where
  "CompiledType_register type_repo_name dsl_name name_camel self type_dict =
     type_dict(type_repo_key type_repo_name dsl_name name_camel \<mapsto> self)"

section \<open>Precise types of parse fields (Field)\<close>

text \<open>
  Modelled from the spec: \<^verbatim>\<open>TypeSet\<close> (langkit.utils.types) is not part of the sources at
  hand. Following the specification it is a set of node types, \<^verbatim>\<open>TypeSet()\<close> is the
  empty set, \<^verbatim>\<open>TypeSet([t])\<close> the singleton and \<^verbatim>\<open>update\<close> the union. A node type is
  named by a number.
\<close>

type_synonym TypeSet = "nat set"

text \<open>
  The type of a parse field as far as the inference looks at it: a node type, or a list
  node type with its element type.
\<close>

datatype node_type = NodeT (tid: nat) | ListT (tid: nat) (element_type: nat)

fun is_list_type :: "node_type \<Rightarrow> bool" where
  "is_list_type (NodeT t) = False"
| "is_list_type (ListT t e) = True"

text \<open>
  A parser of the grammar, as far as the inference reads it: its attributes
  \<^verbatim>\<open>precise_types\<close> and \<^verbatim>\<open>precise_element_types\<close>. Parsers belong to the grammar
  engine; the two sets are taken as given.
\<close>

record parser =
  parser_precise_types :: TypeSet
  parser_precise_element_types :: TypeSet

text \<open>
  A \<^verbatim>\<open>Field\<close>: \<^verbatim>\<open>null\<close>, \<^verbatim>\<open>abstract\<close>, its resolved \<^verbatim>\<open>type\<close> (\<^verbatim>\<open>None\<close> while the
  field is untyped), \<^verbatim>\<open>struct.synthetic\<close>, \<^verbatim>\<open>_overriding_computed\<close>,
  \<^verbatim>\<open>parsers_from_transform\<close> and the two caches \<^verbatim>\<open>_precise_types\<close> and
  \<^verbatim>\<open>_precise_element_types\<close>. The list \<^verbatim>\<open>_concrete_fields\<close> holds the fields that
  override this one; a field overrides at most one field, so the fields form a forest and
  each field carries its overriding fields.
\<close>

record field_attrs =
  null :: bool
  field_abstract :: bool
  field_type :: "node_type option"
  struct_synthetic :: bool
  overriding_computed :: bool
  parsers_from_transform :: "parser list"
  precise_types_cache :: "TypeSet option"
  precise_element_types_cache :: "TypeSet option"

datatype field = Field (fid: nat) (fattrs: field_attrs) (concrete_fields: "field list")

text \<open>
  The property \<^verbatim>\<open>precise_types\<close>: \<^verbatim>\<open>assert self._precise_types is not None\<close>.
\<close>

definition precise_types :: "field \<Rightarrow> exn + TypeSet" where
  "precise_types self =
     (case precise_types_cache (fattrs self) of
        None \<Rightarrow> Inl AssertionError
      | Some types \<Rightarrow> Inr types)"

text \<open>
  The property \<^verbatim>\<open>precise_element_types\<close>: \<^verbatim>\<open>assert self.type.is_list_type\<close>, then
  \<^verbatim>\<open>assert self._precise_element_types is not None\<close>.
\<close>

definition precise_element_types :: "field \<Rightarrow> exn + TypeSet" where
  "precise_element_types self =
     (case field_type (fattrs self) of
        None \<Rightarrow> Inl AttributeError
      | Some ty \<Rightarrow>
          if \<not> is_list_type ty then Inl AssertionError
          else (case precise_element_types_cache (fattrs self) of
                  None \<Rightarrow> Inl AssertionError
                | Some etypes \<Rightarrow> Inr etypes))"

text \<open>
  The loop \<^verbatim>\<open>for p in self.parsers_from_transform\<close> of the last branch of
  \<^verbatim>\<open>_compute_precise_types\<close>.
\<close>

fun update_from_parsers :: "bool \<Rightarrow> parser list \<Rightarrow> TypeSet \<Rightarrow> TypeSet \<Rightarrow> TypeSet \<times> TypeSet" where
  "update_from_parsers is_list [] types etypes = (types, etypes)"
| "update_from_parsers is_list (p # ps) types etypes =
     update_from_parsers is_list ps (types \<union> parser_precise_types p)
       (if is_list then etypes \<union> parser_precise_element_types p else etypes)"

text \<open>
  \<^verbatim>\<open>Field._compute_precise_types\<close>, which returns the field with its caches set (and its
  overriding fields computed), together with the loop \<^verbatim>\<open>for f in self.concrete_fields\<close>
  of its abstract branch. Reading \<^verbatim>\<open>self.concrete_fields\<close> asserts
  \<^verbatim>\<open>self.abstract and self._overriding_computed\<close>.
\<close>

fun compute_precise_types :: "field \<Rightarrow> exn + field"
  and update_from_concrete_fields ::
    "bool \<Rightarrow> field list \<Rightarrow> TypeSet \<Rightarrow> TypeSet \<Rightarrow> exn + (field list \<times> TypeSet \<times> TypeSet)" where
  "compute_precise_types (Field i a cfs) =
     (case field_type a of
        None \<Rightarrow> Inl AttributeError
      | Some ty \<Rightarrow>
          (let is_list = is_list_type ty in
           if null a then
             Inr (Field i (a\<lparr>precise_types_cache := Some {tid ty},
                    precise_element_types_cache :=
                      (if is_list then Some {element_type ty} else None)\<rparr>) cfs)
           else if field_abstract a then
             (if \<not> overriding_computed a then Inl AssertionError
              else case update_from_concrete_fields is_list cfs {} {} of
                     Inl e \<Rightarrow> Inl e
                   | Inr (cfs', types, etypes) \<Rightarrow>
                       Inr (Field i (a\<lparr>precise_types_cache := Some types,
                              precise_element_types_cache :=
                                (if is_list then Some etypes else None)\<rparr>) cfs'))
           else if struct_synthetic a then
             Inr (Field i (a\<lparr>precise_types_cache := Some {tid ty},
                    precise_element_types_cache :=
                      (if is_list then Some {element_type ty} else None)\<rparr>) cfs)
           else
             (case update_from_parsers is_list (parsers_from_transform a) {} {} of
                (types, etypes) \<Rightarrow>
                  Inr (Field i (a\<lparr>precise_types_cache := Some types,
                         precise_element_types_cache :=
                           (if is_list then Some etypes else None)\<rparr>) cfs))))"
| "update_from_concrete_fields is_list [] types etypes = Inr ([], types, etypes)"
| "update_from_concrete_fields is_list (f # fs) types etypes =
     (case compute_precise_types f of
        Inl e \<Rightarrow> Inl e
      | Inr f' \<Rightarrow>
          (case precise_types f' of
             Inl e \<Rightarrow> Inl e
           | Inr t \<Rightarrow>
               (if is_list then
                  (case precise_element_types f' of
                     Inl e \<Rightarrow> Inl e
                   | Inr et \<Rightarrow>
                       (case update_from_concrete_fields is_list fs (types \<union> t) (etypes \<union> et) of
                          Inl e \<Rightarrow> Inl e
                        | Inr (fs', types', etypes') \<Rightarrow> Inr (f' # fs', types', etypes')))
                else
                  (case update_from_concrete_fields is_list fs (types \<union> t) etypes of
                     Inl e \<Rightarrow> Inl e
                   | Inr (fs', types', etypes') \<Rightarrow> Inr (f' # fs', types', etypes')))))"

text \<open>
  The loop \<^verbatim>\<open>for f in self.get_parse_fields(include_inherited=False):
  f._compute_precise_types()\<close> of \<^verbatim>\<open>compute_precise_fields_types\<close>.
\<close>

fun compute_fields :: "field list \<Rightarrow> exn + field list" where
  "compute_fields [] = Inr []"
| "compute_fields (f # fs) =
     (case compute_precise_types f of
        Inl e \<Rightarrow> Inl e
      | Inr f' \<Rightarrow> (case compute_fields fs of Inl e \<Rightarrow> Inl e | Inr fs' \<Rightarrow> Inr (f' # fs')))"

text \<open>
  The union of what a property (\<^const>\<open>precise_types\<close> or
  \<^const>\<open>precise_element_types\<close>) returns on each field of a list; reading the property
  of a field that has none fails.
\<close>

fun union_of :: "(field \<Rightarrow> exn + TypeSet) \<Rightarrow> field list \<Rightarrow> exn + TypeSet" where
  "union_of prop [] = Inr {}"
| "union_of prop (f # fs) =
     (case prop f of
        Inl e \<Rightarrow> Inl e
      | Inr t \<Rightarrow> (case union_of prop fs of Inl e \<Rightarrow> Inl e | Inr u \<Rightarrow> Inr (t \<union> u)))"

text \<open>
  Two parsers, two concrete fields of node types built by them, and the abstract field
  they override; and a field of a list type with a null field overriding it.
\<close>

definition example_parser :: "nat \<Rightarrow> parser" where
  "example_parser t = \<lparr>parser_precise_types = {t}, parser_precise_element_types = {}\<rparr>"

definition example_concrete_field :: "nat \<Rightarrow> nat \<Rightarrow> parser list \<Rightarrow> field" where
  "example_concrete_field i t ps =
     Field i \<lparr>null = False, field_abstract = False, field_type = Some (NodeT t),
       struct_synthetic = False, overriding_computed = True, parsers_from_transform = ps,
       precise_types_cache = None, precise_element_types_cache = None\<rparr> []"

definition example_abstract_field :: field where
  "example_abstract_field =
     Field 0 \<lparr>null = False, field_abstract = True, field_type = Some (NodeT 10),
       struct_synthetic = False, overriding_computed = True, parsers_from_transform = [],
       precise_types_cache = None, precise_element_types_cache = None\<rparr>
       [example_concrete_field 1 10 [example_parser 11, example_parser 12],
        example_concrete_field 2 10 [example_parser 13]]"

definition example_abstract_field_computed :: field where
  "example_abstract_field_computed =
     Field 0 \<lparr>null = False, field_abstract = True, field_type = Some (NodeT 10),
       struct_synthetic = False, overriding_computed = True, parsers_from_transform = [],
       precise_types_cache = Some {11, 12, 13}, precise_element_types_cache = None\<rparr>
       [Field 1 \<lparr>null = False, field_abstract = False, field_type = Some (NodeT 10),
          struct_synthetic = False, overriding_computed = True,
          parsers_from_transform = [example_parser 11, example_parser 12],
          precise_types_cache = Some {11, 12}, precise_element_types_cache = None\<rparr> [],
        Field 2 \<lparr>null = False, field_abstract = False, field_type = Some (NodeT 10),
          struct_synthetic = False, overriding_computed = True,
          parsers_from_transform = [example_parser 13],
          precise_types_cache = Some {13}, precise_element_types_cache = None\<rparr> []]"

section \<open>The node hierarchy (ASTNodeType)\<close>

text \<open>
  An \<^verbatim>\<open>ASTNodeType\<close> with the attributes the kind ordering and the precise type
  inference depend on: its identity, \<^verbatim>\<open>name.base_name\<close>, \<^verbatim>\<open>abstract\<close>,
  \<^verbatim>\<open>is_list\<close>, \<^verbatim>\<open>list_element_parsers\<close>, \<^verbatim>\<open>precise_list_element_types\<close>, the
  parse fields it declares itself, and the list \<^verbatim>\<open>subclasses\<close>, in the order in which
  the subclasses registered themselves. The \<^verbatim>\<open>base\<close> link is the position in the
  tree: a function that follows it takes the list of the node's ancestors, root first,
  which is \<^verbatim>\<open>get_inheritance_chain()\<close> without the node itself.
\<close>

record astnode_attrs =
  base_name :: string
  abstract :: bool
  is_list :: bool
  list_element_parsers :: "parser list"
  precise_list_element_types :: "TypeSet option"
  parse_fields :: "field list"

datatype astnode = ASTNode (uid: nat) (nattrs: astnode_attrs) (subclasses: "astnode list")

text \<open>A node that is not a list and declares no parse field.\<close>

definition plain_node :: "nat \<Rightarrow> string \<Rightarrow> bool \<Rightarrow> astnode list \<Rightarrow> astnode" where
  "plain_node i name is_abstract subs =
     ASTNode i \<lparr>base_name = name, abstract = is_abstract, is_list = False,
       list_element_parsers = [], precise_list_element_types = None, parse_fields = []\<rparr> subs"

text \<open>Python's \<^verbatim>\<open>sep.join(strings)\<close>.\<close>

fun join :: "string \<Rightarrow> string list \<Rightarrow> string" where
  "join sep [] = []"
| "join sep [x] = x"
| "join sep (x # y # ys) = x @ sep @ join sep (y # ys)"

text \<open>
  \<^verbatim>\<open>hierarchical_name\<close>:
  \<^verbatim>\<open>'.'.join(node.name.base_name for node in self.get_inheritance_chain())\<close>.
\<close>

definition hierarchical_name :: "astnode list \<Rightarrow> string" where
  "hierarchical_name inheritance_chain = join ''.'' (map (\<lambda>node. base_name (nattrs node)) inheritance_chain)"

text \<open>
  \<^verbatim>\<open>concrete_subclasses\<close>: the node itself unless it is abstract, then the concrete
  subclasses of each direct subclass, the direct subclasses being sorted by hierarchical
  name (\<^verbatim>\<open>sorted\<close> is stable, and so is \<^const>\<open>sort_key\<close>; strings compare character by
  character).
\<close>

function concrete_subclasses :: "astnode list \<Rightarrow> astnode \<Rightarrow> astnode list" where
  "concrete_subclasses bases self =
     (if abstract (nattrs self) then [] else [self]) @
     concat (map (concrete_subclasses (bases @ [self]))
       (sort_key (\<lambda>subcls. hierarchical_name (bases @ [self, subcls])) (subclasses self)))"
  by pat_completeness auto
termination
proof (relation "measure (\<lambda>(bases, self). size self)")
  show "wf (measure (\<lambda>(bases, self). size self))" by simp
next
  fix bases :: "astnode list" and self x :: astnode
  assume "x \<in> set (sort_key (\<lambda>subcls. hierarchical_name (bases @ [self, subcls])) (subclasses self))"
  then have "x \<in> set (subclasses self)" by simp
  then have "size x < size self"
    by (cases self) (auto simp: less_Suc_eq_le intro: size_list_estimation')
  then show "((bases @ [self], x), (bases, self)) \<in> measure (\<lambda>(bases, self). size self)"
    by simp
qed

text \<open>The node and all its direct and indirect subclasses.\<close>

function descendants :: "astnode \<Rightarrow> astnode list" where
  "descendants n = n # concat (map descendants (subclasses n))"
  by pat_completeness auto
termination
proof (relation "measure size")
  show "wf (measure size)" by simp
next
  fix n x :: astnode
  assume "x \<in> set (subclasses n)"
  then have "size x < size n"
    by (cases n) (auto simp: less_Suc_eq_le intro: size_list_estimation')
  then show "(x, n) \<in> measure size" by simp
qed

text \<open>The same nodes, each with the list of its ancestors.\<close>

function nodes_with_bases :: "astnode list \<Rightarrow> astnode \<Rightarrow> (astnode list \<times> astnode) list" where
  "nodes_with_bases bases n =
     (bases, n) # concat (map (nodes_with_bases (bases @ [n])) (subclasses n))"
  by pat_completeness auto
termination
proof (relation "measure (\<lambda>(bases, n). size n)")
  show "wf (measure (\<lambda>(bases, n). size n))" by simp
next
  fix bases :: "astnode list" and n x :: astnode
  assume "x \<in> set (subclasses n)"
  then have "size x < size n"
    by (cases n) (auto simp: less_Suc_eq_le intro: size_list_estimation')
  then show "((bases @ [n], x), (bases, n)) \<in> measure (\<lambda>(bases, n). size n)"
    by simp
qed

text \<open>
  \<^verbatim>\<open>ada_kind_range_bounds\<close>: the first and the last concrete subclass, or the node itself
  twice when it has none. A bound is given as the node whose kind enumerator is named.
\<close>

definition ada_kind_range_bounds :: "astnode list \<Rightarrow> astnode \<Rightarrow> astnode \<times> astnode" where
  "ada_kind_range_bounds bases self =
     (let subclasses = concrete_subclasses bases self
      in if subclasses \<noteq> [] then (hd subclasses, last subclasses) else (self, self))"

text \<open>
  The global kind ordering lists the concrete nodes of the whole hierarchy; the position
  of a node in it is its kind. A node lies in a range when its kind and both bounds exist
  in the ordering and the kind is between the bounds.
\<close>

fun index_of :: "'a \<Rightarrow> 'a list \<Rightarrow> nat option" where
  "index_of x [] = None"
| "index_of x (y # ys) = (if x = y then Some 0 else map_option Suc (index_of x ys))"

definition in_kind_range :: "astnode list \<Rightarrow> astnode \<times> astnode \<Rightarrow> astnode \<Rightarrow> bool" where
  "in_kind_range kinds bounds x =
     (case (index_of (fst bounds) kinds, index_of x kinds, index_of (snd bounds) kinds) of
        (Some lo, Some i, Some hi) \<Rightarrow> lo \<le> i \<and> i \<le> hi
      | _ \<Rightarrow> False)"

text \<open>
  A small hierarchy: an abstract root, an abstract \<^verbatim>\<open>Decl\<close> with two concrete
  subclasses declared in the order \<^verbatim>\<open>VarDecl\<close>, \<^verbatim>\<open>FuncDecl\<close>, and the generic list type.
\<close>

definition example_decl :: astnode where
  "example_decl = plain_node 1 ''Decl'' True
     [plain_node 3 ''VarDecl'' False [], plain_node 4 ''FuncDecl'' False []]"

definition example_root :: astnode where
  "example_root = plain_node 0 ''Root'' True [example_decl, plain_node 2 ''RootBaseList'' True []]"

text \<open>
  The fields below an abstract field are the parse fields that the subclasses declare:
  \<^verbatim>\<open>overriding._concrete_fields.append(self)\<close> puts the subclass's own \<^verbatim>\<open>Field\<close> object
  in the list, so what \<^verbatim>\<open>_compute_precise_types\<close> writes into it is what the subclass
  holds afterwards. A \<^verbatim>\<open>Field\<close> object is identified by its \<^const>\<open>fid\<close>.
  \<^const>\<open>compute_precise_types\<close> writes the field it is called on and, below an abstract
  field, the fields that override it; a node shares the written fields when each parse
  field of the node and of its descendants that is one of these objects has the written
  value.
\<close>

fun written_fields :: "field \<Rightarrow> field list" where
  "written_fields (Field i a cfs) =
     Field i a cfs #
       (if field_type a \<noteq> None \<and> \<not> null a \<and> field_abstract a
        then concat (map written_fields cfs) else [])"

definition share_field :: "field list \<Rightarrow> field \<Rightarrow> field" where
  "share_field written f =
     (case find (\<lambda>w. fid w = fid f) written of Some w \<Rightarrow> w | None \<Rightarrow> f)"

fun share_fields :: "field list \<Rightarrow> astnode \<Rightarrow> astnode" where
  "share_fields written (ASTNode i a subs) =
     ASTNode i (a\<lparr>parse_fields := map (share_field written) (parse_fields a)\<rparr>)
       (map (share_fields written) subs)"

text \<open>
  \<^verbatim>\<open>ASTNodeType.compute_precise_fields_types\<close>, which returns the node with its sets
  computed, together with its loop \<^verbatim>\<open>for subcls in self.subclasses\<close>. The test
  \<^verbatim>\<open>if self.precise_list_element_types\<close> reads "already computed", as the comment above
  it says: the attribute is \<^verbatim>\<open>None\<close> until the first run. Updating with the
  \<^verbatim>\<open>None\<close> of a subclass that is not a list fails. The other branch computes the parse
  fields the node declares, \<^verbatim>\<open>get_parse_fields(include_inherited=False)\<close>, and the
  subclasses share the fields it has written.
\<close>

fun compute_precise_fields_types :: "astnode \<Rightarrow> exn + astnode"
  and update_from_subclasses :: "astnode list \<Rightarrow> TypeSet \<Rightarrow> exn + (astnode list \<times> TypeSet)" where
  "compute_precise_fields_types (ASTNode i a subs) =
     (if is_list a then
        (if precise_list_element_types a \<noteq> None then Inr (ASTNode i a subs)
         else case update_from_subclasses subs {} of
                Inl e \<Rightarrow> Inl e
              | Inr (subs', types) \<Rightarrow>
                  Inr (ASTNode i
                    (a\<lparr>precise_list_element_types :=
                        Some (fold (\<lambda>p types. types \<union> parser_precise_types p)
                                (list_element_parsers a) types)\<rparr>) subs'))
      else
        (case compute_fields (parse_fields a) of
           Inl e \<Rightarrow> Inl e
         | Inr fs' \<Rightarrow>
             Inr (ASTNode i (a\<lparr>parse_fields := fs'\<rparr>)
                    (map (share_fields (concat (map written_fields fs'))) subs))))"
| "update_from_subclasses [] types = Inr ([], types)"
| "update_from_subclasses (subcls # rest) types =
     (case compute_precise_fields_types subcls of
        Inl e \<Rightarrow> Inl e
      | Inr subcls' \<Rightarrow>
          (case precise_list_element_types (nattrs subcls') of
             None \<Rightarrow> Inl AssertionError
           | Some t \<Rightarrow>
               (case update_from_subclasses rest (types \<union> t) of
                  Inl e \<Rightarrow> Inl e
                | Inr (rest', types') \<Rightarrow> Inr (subcls' # rest', types'))))"

text \<open>
  A node that is not a list, with one parse field built by one parser, before the first
  run of the inference and after it; and a list node whose set is already computed.
\<close>

definition example_field_node :: astnode where
  "example_field_node =
     ASTNode 5 \<lparr>base_name = ''VarDecl'', abstract = False, is_list = False,
       list_element_parsers = [], precise_list_element_types = None,
       parse_fields = [example_concrete_field 1 10 [example_parser 11]]\<rparr> []"

definition example_computed_node :: astnode where
  "example_computed_node =
     ASTNode 5 \<lparr>base_name = ''VarDecl'', abstract = False, is_list = False,
       list_element_parsers = [], precise_list_element_types = None,
       parse_fields =
         [Field 1 \<lparr>null = False, field_abstract = False, field_type = Some (NodeT 10),
            struct_synthetic = False, overriding_computed = True,
            parsers_from_transform = [example_parser 11],
            precise_types_cache = Some {11}, precise_element_types_cache = None\<rparr> []]\<rparr> []"

definition example_list_node :: astnode where
  "example_list_node =
     ASTNode 6 \<lparr>base_name = ''DeclList'', abstract = False, is_list = True,
       list_element_parsers = [example_parser 11], precise_list_element_types = Some {12},
       parse_fields = []\<rparr> []"

text \<open>
  An abstract node that declares the abstract field \<^const>\<open>example_abstract_field\<close>, with
  the two subclasses that declare the fields overriding it, before the first run of the
  inference and after it.
\<close>

definition example_base_node :: astnode where
  "example_base_node =
     ASTNode 7 \<lparr>base_name = ''Decl'', abstract = True, is_list = False,
       list_element_parsers = [], precise_list_element_types = None,
       parse_fields = [example_abstract_field]\<rparr>
       [ASTNode 8 \<lparr>base_name = ''VarDecl'', abstract = False, is_list = False,
          list_element_parsers = [], precise_list_element_types = None,
          parse_fields = take 1 (concrete_fields example_abstract_field)\<rparr> [],
        ASTNode 9 \<lparr>base_name = ''FuncDecl'', abstract = False, is_list = False,
          list_element_parsers = [], precise_list_element_types = None,
          parse_fields = drop 1 (concrete_fields example_abstract_field)\<rparr> []]"

definition example_base_node_computed :: astnode where
  "example_base_node_computed =
     ASTNode 7 \<lparr>base_name = ''Decl'', abstract = True, is_list = False,
       list_element_parsers = [], precise_list_element_types = None,
       parse_fields = [example_abstract_field_computed]\<rparr>
       [ASTNode 8 \<lparr>base_name = ''VarDecl'', abstract = False, is_list = False,
          list_element_parsers = [], precise_list_element_types = None,
          parse_fields = take 1 (concrete_fields example_abstract_field_computed)\<rparr> [],
        ASTNode 9 \<lparr>base_name = ''FuncDecl'', abstract = False, is_list = False,
          list_element_parsers = [], precise_list_element_types = None,
          parse_fields = drop 1 (concrete_fields example_abstract_field_computed)\<rparr> []]"

text \<open>
  The statement \<^verbatim>\<open>f.parsers_from_transform.append(p)\<close> of
  \<^verbatim>\<open>check_inferred_field_types\<close>, by which the grammar hands a field one more parser.
\<close>

fun append_parser_from_transform :: "parser \<Rightarrow> field \<Rightarrow> field" where
  "append_parser_from_transform p (Field i a cfs) =
     Field i (a\<lparr>parsers_from_transform := parsers_from_transform a @ [p]\<rparr>) cfs"

text \<open>
  A field with the caches emptied in every field that \<^const>\<open>compute_precise_types\<close>
  visits: the field itself and, below an abstract field, the fields that override it.
\<close>

fun forget_field :: "field \<Rightarrow> field" where
  "forget_field (Field i a cfs) =
     Field i (a\<lparr>precise_types_cache := None, precise_element_types_cache := None\<rparr>)
       (if field_type a \<noteq> None \<and> \<not> null a \<and> field_abstract a
        then map forget_field cfs else cfs)"

text \<open>A node with a change made to each parse field it declares.\<close>

definition map_parse_fields :: "(field \<Rightarrow> field) \<Rightarrow> astnode \<Rightarrow> astnode" where
  "map_parse_fields g n =
     ASTNode (uid n) ((nattrs n)\<lparr>parse_fields := map g (parse_fields (nattrs n))\<rparr>)
       (subclasses n)"

text \<open>
  The node \<^const>\<open>example_computed_node\<close> after the grammar has given its field a second
  parser, and what the next run of the inference makes of it.
\<close>

definition example_grown_node :: astnode where
  "example_grown_node =
     map_parse_fields (append_parser_from_transform (example_parser 12)) example_computed_node"

definition example_regrown_node :: astnode where
  "example_regrown_node =
     ASTNode 5 \<lparr>base_name = ''VarDecl'', abstract = False, is_list = False,
       list_element_parsers = [], precise_list_element_types = None,
       parse_fields =
         [Field 1 \<lparr>null = False, field_abstract = False, field_type = Some (NodeT 10),
            struct_synthetic = False, overriding_computed = True,
            parsers_from_transform = [example_parser 11, example_parser 12],
            precise_types_cache = Some {11, 12}, precise_element_types_cache = None\<rparr> []]\<rparr> []"

section \<open>Memoized derived types (array, list, entity)\<close>

text \<open>
  The compiled types live in a store of objects, in the order of their creation: a type
  instance is its position in the store (its identity), so a new instance never displaces
  an existing one. Of an instance the derivations read its kind, its name (in camel case;
  \<^verbatim>\<open>Name\<close> objects are concatenated with \<^verbatim>\<open>+\<close>), its element type, for a node
  its base, and the names bound in its \<^verbatim>\<open>_fields\<close>.
\<close>

datatype type_kind = PrimitiveKind | StructKind | ArrayKind | NodeKind | EntityKind

record type_obj =
  kind :: type_kind
  tname :: string
  elt_type :: "nat option"
  base :: "nat option"
  type_fields :: "string list"

text \<open>
  \<^verbatim>\<open>CompiledTypeRepo\<close> together with the store: the class attributes \<^verbatim>\<open>type_dict\<close>,
  \<^verbatim>\<open>astnode_types\<close>, \<^verbatim>\<open>struct_types\<close>, \<^verbatim>\<open>pending_list_types\<close>, \<^verbatim>\<open>array_types\<close>,
  \<^verbatim>\<open>root_grammar_class\<close> (with its \<^verbatim>\<open>generic_list_type\<close>) and \<^verbatim>\<open>entity_info\<close>; the
  \<^verbatim>\<open>list_types\<close> of the compile context; and one cache per memoized property.
\<close>

record repo =
  store :: "type_obj list"
  type_dict :: "string \<rightharpoonup> nat"
  astnode_types :: "nat list"
  struct_types :: "nat list"
  pending_list_types :: "nat list"
  array_types :: "nat set"
  root_grammar_class :: "(nat \<times> nat) option"
  entity_info_type :: "nat option"
  ctx_list_types :: "nat set"
  array_cache :: "nat \<rightharpoonup> nat"
  list_cache :: "nat \<rightharpoonup> nat"
  entity_cache :: "nat \<rightharpoonup> nat"

definition lookup_obj :: "repo \<Rightarrow> nat \<Rightarrow> type_obj option" where
  "lookup_obj r t = (if t < length (store r) then Some (store r ! t) else None)"

text \<open>
  \<^verbatim>\<open>CompiledType.__init__\<close>: a new instance, registered in \<^verbatim>\<open>type_dict\<close> under its
  repository name.
\<close>

definition new_type :: "type_obj \<Rightarrow> repo \<Rightarrow> nat \<times> repo" where
  "new_type obj r =
     (length (store r),
      r\<lparr>store := store r @ [obj],
        type_dict := CompiledType_register (Some (tname obj)) None (tname obj)
                       (length (store r)) (type_dict r)\<rparr>)"

text \<open>
  Modelled from the spec: the decorator \<^verbatim>\<open>memoized\<close> (langkit.utils) is not part of the
  sources at hand. Following the specification, a memoized derivation is produced once per
  receiver: the first call that returns stores its result under the receiver, and every
  later call returns the stored instance without running the body. The three functions
  below are the bodies of the properties under that decorator.

  \<^verbatim>\<open>CompiledType.array\<close>:
  \<^verbatim>\<open>ArrayType(name=self.name + names.Name('Array_Type'), element_type=self)\<close>, whose
  constructor adds the new type to \<^verbatim>\<open>array_types\<close>.
\<close>

definition array :: "nat \<Rightarrow> repo \<Rightarrow> exn + (nat \<times> repo)" where
  "array self r =
     (case array_cache r self of
        Some result \<Rightarrow> Inr (result, r)
      | None \<Rightarrow>
          (case lookup_obj r self of
             None \<Rightarrow> Inl AttributeError
           | Some obj \<Rightarrow>
               (case new_type \<lparr>kind = ArrayKind, tname = tname obj @ ''ArrayType'',
                                elt_type = Some self, base = None, type_fields = []\<rparr> r of
                  (result, r1) \<Rightarrow>
                    Inr (result,
                         r1\<lparr>array_types := insert result (array_types r1),
                            array_cache := (array_cache r1)(self \<mapsto> result)\<rparr>))))"

text \<open>
  \<^verbatim>\<open>ASTNodeType.entity_info\<close>, memoized by hand in \<^verbatim>\<open>CompiledTypeRepo.entity_info\<close>.
\<close>

definition entity_info :: "repo \<Rightarrow> nat \<times> repo" where
  "entity_info r =
     (case entity_info_type r of
        Some result \<Rightarrow> (result, r)
      | None \<Rightarrow>
          (case new_type \<lparr>kind = StructKind, tname = ''EntityInfo'',
                           elt_type = None, base = None,
                           type_fields = [''md'', ''rebindings'', ''from_rebound'']\<rparr> r of
             (result, r1) \<Rightarrow>
               (result, r1\<lparr>struct_types := struct_types r1 @ [result],
                           entity_info_type := Some result\<rparr>)))"

text \<open>
  \<^verbatim>\<open>ASTNodeType.entity\<close>: \<^verbatim>\<open>EntityType(self)\<close>, a struct named \<^verbatim>\<open>Entity\<close> followed by
  the node's name unless the node is the root.
\<close>

definition entity :: "nat \<Rightarrow> repo \<Rightarrow> exn + (nat \<times> repo)" where
  "entity self r =
     (case entity_cache r self of
        Some result \<Rightarrow> Inr (result, r)
      | None \<Rightarrow>
          (case lookup_obj r self of
             None \<Rightarrow> Inl AttributeError
           | Some obj \<Rightarrow>
               (case entity_info r of
                  (info, r1) \<Rightarrow>
                    (case new_type \<lparr>kind = EntityKind,
                            tname = ''Entity'' @ (if base obj = None then [] else tname obj),
                            elt_type = Some self, base = None,
                            type_fields = [''node'', ''info'']\<rparr> r1 of
                       (result, r2) \<Rightarrow>
                         Inr (result,
                              r2\<lparr>struct_types := struct_types r2 @ [result],
                                 entity_cache := (entity_cache r2)(self \<mapsto> result)\<rparr>)))))"

text \<open>
  \<^verbatim>\<open>ASTNodeType.list\<close>: a new node type named after the receiver, whose base is the
  generic list type of the root; the constructor of a node type appends it to
  \<^verbatim>\<open>astnode_types\<close> and asks for its entity type. The new list type is added to the
  \<^verbatim>\<open>list_types\<close> of the compile context when there is one (\<open>ctx\<close>), and to
  \<^verbatim>\<open>pending_list_types\<close> otherwise.
\<close>

definition list_type :: "bool \<Rightarrow> nat \<Rightarrow> repo \<Rightarrow> exn + (nat \<times> repo)" where
  "list_type ctx self r =
     (case list_cache r self of
        Some result \<Rightarrow> Inr (result, r)
      | None \<Rightarrow>
          (case lookup_obj r self of
             None \<Rightarrow> Inl AttributeError
           | Some obj \<Rightarrow>
               (case root_grammar_class r of
                  None \<Rightarrow> Inl AttributeError
                | Some (root, generic_list_type) \<Rightarrow>
                    (case new_type \<lparr>kind = NodeKind, tname = tname obj @ ''List'',
                                     elt_type = Some self, base = Some generic_list_type,
                                     type_fields = []\<rparr> r of
                       (result, r1) \<Rightarrow>
                         (case entity result (r1\<lparr>astnode_types := astnode_types r1 @ [result]\<rparr>) of
                            Inl e \<Rightarrow> Inl e
                          | Inr (ent, r2) \<Rightarrow>
                              Inr (result,
                                   (if ctx then r2\<lparr>ctx_list_types := insert self (ctx_list_types r2)\<rparr>
                                    else r2\<lparr>pending_list_types := pending_list_types r2 @ [result]\<rparr>)
                                   \<lparr>list_cache := (list_cache r2)(self \<mapsto> result)\<rparr>))))))"

text \<open>
  The requests a compilation makes, in any order and any number of times; a request that
  raises leaves the repository as it was.
\<close>

datatype request = Array nat | List bool nat | Entity nat

fun do_request :: "request \<Rightarrow> repo \<Rightarrow> exn + (nat \<times> repo)" where
  "do_request (Array t) r = array t r"
| "do_request (List ctx n) r = list_type ctx n r"
| "do_request (Entity n) r = entity n r"

fun do_requests :: "request list \<Rightarrow> repo \<Rightarrow> repo" where
  "do_requests [] r = r"
| "do_requests (q # qs) r =
     do_requests qs (case do_request q r of Inl e \<Rightarrow> r | Inr (t, r') \<Rightarrow> r')"

text \<open>
  A repository with a root node (instance 0), its generic list type (instance 1) and a
  node \<^verbatim>\<open>Expr\<close> (instance 2).
\<close>

definition example_repo :: repo where
  "example_repo =
     \<lparr>store = [\<lparr>kind = NodeKind, tname = ''Root'', elt_type = None, base = None,
                 type_fields = [''parent'']\<rparr>,
               \<lparr>kind = NodeKind, tname = ''RootBaseList'', elt_type = None,
                 base = Some 0, type_fields = []\<rparr>,
               \<lparr>kind = NodeKind, tname = ''Expr'', elt_type = None, base = Some 0,
                 type_fields = [''value'']\<rparr>],
      type_dict = [''Root'' \<mapsto> 0, ''RootBaseList'' \<mapsto> 1, ''Expr'' \<mapsto> 2],
      astnode_types = [0, 1, 2], struct_types = [], pending_list_types = [],
      array_types = {}, root_grammar_class = Some (0, 1), entity_info_type = None,
      ctx_list_types = {}, array_cache = Map.empty, list_cache = Map.empty,
      entity_cache = Map.empty\<rparr>"

section \<open>Deferred type references (TypeRepo.Defer)\<close>

text \<open>
  An argument of a deferred call: some object, of which the label shows \<^verbatim>\<open>str(arg)\<close>.
\<close>

datatype pyarg = PyArg (arg_id: nat) (arg_str: string)

text \<open>
  A \<^verbatim>\<open>Defer\<close> object holds a getter and a label. The getters are the three closures
  the module builds: \<^verbatim>\<open>resolve\<close> of \<^verbatim>\<open>TypeRepo.__getattr__\<close>, which captures the
  type name; \<^verbatim>\<open>get\<close> of \<^verbatim>\<open>Defer.__getattr__\<close>, which captures the receiver and the
  attribute name; and the lambda of \<^verbatim>\<open>Defer.__call__\<close>, which captures the receiver
  and the arguments.
\<close>

datatype getter =
  Resolve string
| GetAttrThunk Defer string
| CallThunk Defer "pyarg list" "(string \<times> pyarg) list"
and Defer = Defer (getter: getter) (label: string)









text \<open>
  \<^verbatim>\<open>TypeRepo.__getattr__(type_name)\<close>: the type itself when it is registered and is
  not a node type, a deferred reference otherwise.
\<close>

definition TypeRepo_getattr :: "string \<Rightarrow> repo \<Rightarrow> Defer + nat" where
  "TypeRepo_getattr type_name r =
     (case type_dict r type_name of
        None \<Rightarrow> Inl (Defer (Resolve type_name) type_name)
      | Some result \<Rightarrow>
          (case lookup_obj r result of
             None \<Rightarrow> Inr result
           | Some obj \<Rightarrow>
               if kind obj = NodeKind then Inl (Defer (Resolve type_name) type_name)
               else Inr result))"





section \<open>Properties of the diagnostics module\<close>

lemma run_calls_append: "run_calls (cs @ cs') d = run_calls cs' (run_calls cs d)"
  by (induction cs arbitrary: d) simp_all

lemma do_call_flag:
  "has_pending_error (snd (do_call c d)) =
     (if is_checkpoint c then False else (has_pending_error d \<or> records_error c))"
  by (cases c) (auto simp: check_source_language_def errors_checkpoint_def Let_def)

lemma run_calls_flag:
  "has_pending_error (run_calls cs d) =
     (recorded_since_checkpoint cs \<or> (list_all (\<lambda>c. \<not> is_checkpoint c) cs \<and> has_pending_error d))"
proof (induction cs rule: rev_induct)
  case Nil
  then show ?case by (simp add: recorded_since_checkpoint_def)
next
  case (snoc c cs)
  show ?case
  proof (cases "is_checkpoint c")
    case True
    then show ?thesis
      by (simp add: run_calls_append do_call_flag recorded_since_checkpoint_def)
  next
    case False
    then show ?thesis
      using snoc.IH
      by (auto simp: run_calls_append do_call_flag recorded_since_checkpoint_def)
  qed
qed

text \<open>
  C9 (as amended). A check of a false predicate at non-blocking severity that is not stopped
  by the code generation assertion returns normally, prints its message and sets the pending
  flag. After any history of calls starting from the initial state, the checkpoint raises
  exactly when a non-blocking error was recorded since the previous checkpoint, and it
  always leaves the flag cleared.
\<close>

theorem non_blocking_error_checkpoint:
  "(ok_for_codegen \<or> \<not> emitting \<longrightarrow>
      check_source_language emitting False message non_blocking_error do_raise ok_for_codegen d
        = (Inr (), d\<lparr>printed := printed d @ [(non_blocking_error, indent_message message)],
                      has_pending_error := True\<rparr>))
   \<and> (fst (errors_checkpoint (run_calls cs Diagnostics_initial)) = Inl DiagnosticError
        \<longleftrightarrow> recorded_since_checkpoint cs)
   \<and> (fst (errors_checkpoint (run_calls cs Diagnostics_initial)) = Inr ()
        \<longleftrightarrow> \<not> recorded_since_checkpoint cs)
   \<and> \<not> has_pending_error (snd (errors_checkpoint (run_calls cs Diagnostics_initial)))"
proof -
  have flag: "has_pending_error (run_calls cs Diagnostics_initial) = recorded_since_checkpoint cs"
    by (simp add: run_calls_flag Diagnostics_initial_def)
  show ?thesis
    using flag by (auto simp: check_source_language_def errors_checkpoint_def Let_def)
qed

theorem non_blocking_error_checkpoint_witness:
  "check_source_language False False [''homonym''] non_blocking_error True False Diagnostics_initial
     = (Inr (), \<lparr>has_pending_error = True,
                 printed = [(non_blocking_error, [''homonym''])]\<rparr>)
   \<and> fst (errors_checkpoint (run_calls
        [Check False False [''homonym''] non_blocking_error True False,
         Check False False [''abstract''] non_blocking_error True False]
        Diagnostics_initial)) = Inl DiagnosticError
   \<and> recorded_since_checkpoint
        [Check False False [''homonym''] non_blocking_error True False,
         Check False False [''abstract''] non_blocking_error True False]"
  using non_blocking_error_checkpoint
    [of False False "[''homonym'']" True Diagnostics_initial
        "[Check False False [''homonym''] non_blocking_error True False,
          Check False False [''abstract''] non_blocking_error True False]"]
  by (simp add: recorded_since_checkpoint_def Diagnostics_initial_def indent_message_def
      check_source_language_def errors_checkpoint_def)

text \<open>
  C9 (as stated) fails when the check is made while a compile context has its emitter set
  and \<^verbatim>\<open>ok_for_codegen\<close> is left false: the assertion raises at the check site and
  nothing is recorded.
\<close>

theorem non_blocking_check_raises_counterexample:
  "check_source_language True False [''homonym''] non_blocking_error True False Diagnostics_initial
     = (Inl AssertionError, Diagnostics_initial)"
  by (simp add: check_source_language_def)

section \<open>Properties of the type registry\<close>

text \<open>
  C3 (as amended). Registration never fails: it binds the repository name to the new
  instance whatever the name was bound to before, and leaves every other name alone.
\<close>

theorem register_rebinds:
  "CompiledType_register type_repo_name dsl_name name_camel self td
      (type_repo_key type_repo_name dsl_name name_camel) = Some self
   \<and> (\<forall>n. n \<noteq> type_repo_key type_repo_name dsl_name name_camel \<longrightarrow>
        CompiledType_register type_repo_name dsl_name name_camel self td n = td n)"
  by (simp add: CompiledType_register_def)

theorem register_rebinds_witness:
  "CompiledType_register None (Some ''Foo'') ''Foo'' 2 (Map.empty(''Foo'' \<mapsto> 1)) ''Foo'' = Some 2
   \<and> CompiledType_register None (Some ''Foo'') ''Foo'' 2 (Map.empty(''Bar'' \<mapsto> 1)) ''Bar'' = Some 1"
proof -
  have k: "type_repo_key None (Some ''Foo'') ''Foo'' = ''Foo''"
    by (simp add: type_repo_key_def)
  have "''Bar'' \<noteq> type_repo_key None (Some ''Foo'') ''Foo''"
    by (simp add: k)
  then show ?thesis
    using register_rebinds [of None "Some ''Foo''" "''Foo''" 2 "Map.empty(''Foo'' \<mapsto> 1)"]
      register_rebinds [of None "Some ''Foo''" "''Foo''" 2 "Map.empty(''Bar'' \<mapsto> 1)"]
    by (simp add: k)
qed

text \<open>
  C3 (as stated) fails: a second type registered under a name that is bound to a different
  type silently takes the name over.
\<close>

theorem register_silently_rebinds_counterexample:
  "CompiledType_register None (Some ''Foo'') ''Foo'' 2
     (CompiledType_register None (Some ''Foo'') ''Foo'' 1 Map.empty) ''Foo'' = Some 2
   \<and> CompiledType_register None (Some ''Foo'') ''Foo'' 1 Map.empty ''Foo'' = Some 1"
  by (simp add: CompiledType_register_def type_repo_key_def)

section \<open>Properties of the node hierarchy\<close>

declare concrete_subclasses.simps [simp del] descendants.simps [simp del]
  nodes_with_bases.simps [simp del]

lemma index_of_None: "index_of x xs = None \<longleftrightarrow> x \<notin> set xs"
  by (induction xs) auto

lemma index_of_append_notin:
  "x \<notin> set xs \<Longrightarrow>
     index_of x (xs @ ys) = map_option (\<lambda>i. i + length xs) (index_of x ys)"
  by (induction xs) (auto simp: option.map_comp comp_def option.map_ident)

lemma index_of_append_in:
  "index_of x xs = Some i \<Longrightarrow> index_of x (xs @ ys) = Some i"
  by (induction xs arbitrary: i) (auto split: if_splits)

lemma index_of_less: "index_of x xs = Some i \<Longrightarrow> i < length xs"
  by (induction xs arbitrary: i) (auto split: if_splits)

lemma index_of_hd: "xs \<noteq> [] \<Longrightarrow> index_of (hd xs) xs = Some 0"
  by (cases xs) auto

lemma index_of_last: "xs \<noteq> [] \<Longrightarrow> distinct xs \<Longrightarrow> index_of (last xs) xs = Some (length xs - 1)"
proof (induction xs)
  case Nil
  then show ?case by simp
next
  case (Cons a xs)
  then show ?case by (cases xs) auto
qed

lemma index_in_block:
  assumes "distinct (pre @ cs @ post)" and "cs \<noteq> []"
  shows "(case (index_of (hd cs) (pre @ cs @ post), index_of x (pre @ cs @ post),
                index_of (last cs) (pre @ cs @ post)) of
            (Some lo, Some i, Some hi) \<Rightarrow> lo \<le> i \<and> i \<le> hi | _ \<Rightarrow> False)
         \<longleftrightarrow> x \<in> set cs"
proof -
  from assms have hd_pre: "hd cs \<notin> set pre" and last_pre: "last cs \<notin> set pre"
    by (auto dest: hd_in_set last_in_set)
  have dcs: "distinct cs" using assms(1) by simp
  have lo: "index_of (hd cs) (pre @ cs @ post) = Some (length pre)"
    using hd_pre assms(2)
    by (simp add: index_of_append_notin index_of_append_in [OF index_of_hd])
  have hi: "index_of (last cs) (pre @ cs @ post) = Some (length cs - 1 + length pre)"
    using last_pre assms(2) dcs
    by (simp add: index_of_append_notin index_of_append_in [OF index_of_last])
  show ?thesis
  proof (cases "x \<in> set pre")
    case True
    then obtain i where i: "index_of x pre = Some i"
      using index_of_None [of x pre] by (cases "index_of x pre") auto
    then have "i < length pre" by (rule index_of_less)
    moreover have "x \<notin> set cs" using True assms(1) by auto
    ultimately show ?thesis using lo hi
      by (simp add: index_of_append_in [OF i])
  next
    case npre: False
    show ?thesis
    proof (cases "x \<in> set cs")
      case True
      then obtain i where i: "index_of x cs = Some i"
        using index_of_None [of x cs] by (cases "index_of x cs") auto
      then have "i < length cs" by (rule index_of_less)
      then show ?thesis using lo hi npre True
        by (simp add: index_of_append_notin index_of_append_in [OF i])
    next
      case ncs: False
      show ?thesis
      proof (cases "index_of x post")
        case None
        then show ?thesis using lo hi npre ncs
          by (simp add: index_of_append_notin)
      next
        case (Some i)
        then show ?thesis using lo hi npre ncs assms(2)
          by (cases cs) (simp_all add: index_of_append_notin)
      qed
    qed
  qed
qed

lemma concrete_block:
  "(bs, N) \<in> set (nodes_with_bases bases n) \<Longrightarrow>
     \<exists>pre post. concrete_subclasses bases n = pre @ concrete_subclasses bs N @ post"
proof (induction bases n rule: nodes_with_bases.induct)
  case (1 bases n)
  let ?key = "\<lambda>subcls. hierarchical_name (bases @ [n, subcls])"
  from "1.prems" consider "(bs, N) = (bases, n)"
    | c where "c \<in> set (subclasses n)" "(bs, N) \<in> set (nodes_with_bases (bases @ [n]) c)"
    by (subst (asm) nodes_with_bases.simps) auto
  then show ?case
  proof cases
    case 1
    then have "concrete_subclasses bases n = [] @ concrete_subclasses bs N @ []" by simp
    then show ?thesis by blast
  next
    case 2
    from "1.IH" [OF 2] obtain pre post where
      c: "concrete_subclasses (bases @ [n]) c = pre @ concrete_subclasses bs N @ post"
      by blast
    from 2(1) have "c \<in> set (sort_key ?key (subclasses n))" by simp
    then obtain l1 l2 where l: "sort_key ?key (subclasses n) = l1 @ c # l2"
      by (meson split_list)
    have "concrete_subclasses bases n =
        ((if abstract (nattrs n) then [] else [n]) @ concat (map (concrete_subclasses (bases @ [n])) l1) @ pre)
        @ concrete_subclasses bs N
        @ (post @ concat (map (concrete_subclasses (bases @ [n])) l2))"
      by (subst concrete_subclasses.simps) (simp add: l c)
    then show ?thesis by blast
  qed
qed

lemma mset_concat_map: "mset (concat (map f xs)) = (\<Sum>x\<in>#mset xs. mset (f x))"
  by (induction xs) simp_all

lemma filter_mset_sum_mset:
  "filter_mset P (\<Sum>x\<in>#M. f x) = (\<Sum>x\<in>#M. filter_mset P (f x))"
  by (induction M) simp_all

lemma mset_concrete_subclasses:
  "mset (concrete_subclasses bases n) = filter_mset (\<lambda>x. \<not> abstract (nattrs x)) (mset (descendants n))"
proof (induction bases n rule: concrete_subclasses.induct)
  case (1 bases self)
  let ?key = "\<lambda>subcls. hierarchical_name (bases @ [self, subcls])"
  have IH: "\<And>x. x \<in># mset (subclasses self) \<Longrightarrow>
      mset (concrete_subclasses (bases @ [self]) x) = filter_mset (\<lambda>x. \<not> abstract (nattrs x)) (mset (descendants x))"
    using "1.IH" by simp
  have "mset (concat (map (concrete_subclasses (bases @ [self])) (sort_key ?key (subclasses self))))
      = (\<Sum>x\<in>#mset (subclasses self). mset (concrete_subclasses (bases @ [self]) x))"
    by (simp add: mset_concat_map)
  also have "\<dots> = (\<Sum>x\<in>#mset (subclasses self). filter_mset (\<lambda>x. \<not> abstract (nattrs x)) (mset (descendants x)))"
    using IH by (intro arg_cong [where f = sum_mset] image_mset_cong) simp
  also have "\<dots> = filter_mset (\<lambda>x. \<not> abstract (nattrs x)) (mset (concat (map descendants (subclasses self))))"
    by (simp add: mset_concat_map filter_mset_sum_mset)
  finally show ?case
    by (subst concrete_subclasses.simps, subst descendants.simps) simp
qed

lemma set_concrete_subclasses:
  "set (concrete_subclasses bases n) = {x \<in> set (descendants n). \<not> abstract (nattrs x)}"
proof -
  have "set (concrete_subclasses bases n) = set_mset (mset (concrete_subclasses bases n))"
    by simp
  also have "\<dots> = {x \<in> set (descendants n). \<not> abstract (nattrs x)}"
    by (simp only: mset_concrete_subclasses) auto
  finally show ?thesis .
qed

lemma distinct_concrete_subclasses:
  assumes "distinct (map uid (descendants n))"
  shows "distinct (concrete_subclasses bases n)"
proof -
  from assms have "distinct (filter (\<lambda>x. \<not> abstract (nattrs x)) (descendants n))"
    by (simp add: distinct_map)
  moreover have "mset (concrete_subclasses bases n)
      = mset (filter (\<lambda>x. \<not> abstract (nattrs x)) (descendants n))"
    by (simp add: mset_concrete_subclasses)
  ultimately show ?thesis
    by (metis mset_eq_imp_distinct_iff)
qed

text \<open>
  C2. In a hierarchy whose nodes are distinct objects, for every node \<open>N\<close> of the
  hierarchy, a node lies between the bounds of \<open>N\<close>'s kind range in the ordering given by
  the concrete subclasses of the root exactly when it is a concrete node among \<open>N\<close> and
  its direct and indirect subclasses.
\<close>

theorem concrete_subclasses_kind_range:
  assumes "distinct (map uid (descendants root))"
    and "(bases, N) \<in> set (nodes_with_bases [] root)"
  shows "in_kind_range (concrete_subclasses [] root) (ada_kind_range_bounds bases N) x
           \<longleftrightarrow> x \<in> set (descendants N) \<and> \<not> abstract (nattrs x)"
proof -
  from concrete_block [OF assms(2)] obtain pre post where
    blk: "concrete_subclasses [] root = pre @ concrete_subclasses bases N @ post"
    by blast
  have d: "distinct (pre @ concrete_subclasses bases N @ post)"
    using distinct_concrete_subclasses [OF assms(1), of "[]"] blk by simp
  show ?thesis
  proof (cases "concrete_subclasses bases N = []")
    case True
    have "N \<notin> set (concrete_subclasses [] root)"
    proof
      assume "N \<in> set (concrete_subclasses [] root)"
      then have "\<not> abstract (nattrs N)" by (simp add: set_concrete_subclasses)
      then have "N \<in> set (concrete_subclasses bases N)"
        by (subst concrete_subclasses.simps) simp
      with True show False by simp
    qed
    then have "index_of N (concrete_subclasses [] root) = None"
      by (simp add: index_of_None)
    moreover have "\<not> (x \<in> set (descendants N) \<and> \<not> abstract (nattrs x))"
      using True set_concrete_subclasses [of bases N] by auto
    ultimately show ?thesis
      using True by (simp add: in_kind_range_def ada_kind_range_bounds_def)
  next
    case False
    then show ?thesis
      using index_in_block [OF d False, of x]
      by (simp add: in_kind_range_def ada_kind_range_bounds_def Let_def blk [symmetric]
          set_concrete_subclasses)
  qed
qed

theorem concrete_subclasses_kind_range_witness:
  "distinct (map uid (descendants example_root))
   \<and> ([example_root], example_decl) \<in> set (nodes_with_bases [] example_root)
   \<and> concrete_subclasses [] example_root
        = [plain_node 4 ''FuncDecl'' False [], plain_node 3 ''VarDecl'' False []]
   \<and> in_kind_range (concrete_subclasses [] example_root)
        (ada_kind_range_bounds [example_root] example_decl) (plain_node 3 ''VarDecl'' False [])
   \<and> plain_node 3 ''VarDecl'' False [] \<in> set (descendants example_decl)"
proof -
  have h1: "distinct (map uid (descendants example_root))"
    by (simp add: example_root_def example_decl_def plain_node_def descendants.simps)
  have h2: "([example_root], example_decl) \<in> set (nodes_with_bases [] example_root)"
    by (simp add: example_root_def example_decl_def plain_node_def nodes_with_bases.simps)
  have h3: "concrete_subclasses [] example_root
      = [plain_node 4 ''FuncDecl'' False [], plain_node 3 ''VarDecl'' False []]"
    by code_simp
  have h4: "plain_node 3 ''VarDecl'' False [] \<in> set (descendants example_decl)"
    by (simp add: example_decl_def plain_node_def descendants.simps)
  have h5: "\<not> abstract (nattrs (plain_node 3 ''VarDecl'' False []))"
    by (simp add: plain_node_def)
  show ?thesis
    using concrete_subclasses_kind_range [OF h1 h2, of "plain_node 3 ''VarDecl'' False []"]
      h1 h2 h3 h4 h5
    by simp
qed

section \<open>Properties of the precise type inference\<close>

lemma compute_precise_types_fid:
  "compute_precise_types f = Inr f' \<Longrightarrow> fid f' = fid f"
  by (cases f) (auto simp: Let_def split: option.splits if_splits sum.splits prod.splits)

lemma update_from_concrete_fields_union:
  "update_from_concrete_fields il fs types etypes = Inr (fs', types', etypes') \<Longrightarrow>
     map fid fs' = map fid fs
     \<and> (\<exists>u. union_of precise_types fs' = Inr u \<and> types' = types \<union> u)
     \<and> (il \<longrightarrow> (\<exists>v. union_of precise_element_types fs' = Inr v \<and> etypes' = etypes \<union> v))"
proof (induction fs arbitrary: types etypes fs' types' etypes')
  case Nil
  then show ?case by simp
next
  case (Cons f fs)
  from Cons.prems obtain f1 t where
    f1: "compute_precise_types f = Inr f1" and t: "precise_types f1 = Inr t"
    by (auto split: sum.splits)
  show ?case
  proof (cases il)
    case True
    from Cons.prems f1 t True obtain et rest where
      et: "precise_element_types f1 = Inr et"
      and rest: "update_from_concrete_fields il fs (types \<union> t) (etypes \<union> et)
                   = Inr (rest, types', etypes')"
      and fs': "fs' = f1 # rest"
      by (auto split: sum.splits)
    from Cons.IH [OF rest] show ?thesis
      using f1 t et fs' True by (auto simp: compute_precise_types_fid)
  next
    case False
    from Cons.prems f1 t False obtain rest where
      rest: "update_from_concrete_fields il fs (types \<union> t) etypes
                   = Inr (rest, types', etypes')"
      and fs': "fs' = f1 # rest"
      by (auto split: sum.splits)
    from Cons.IH [OF rest] show ?thesis
      using f1 t fs' False by (auto simp: compute_precise_types_fid)
  qed
qed

text \<open>
  C4. When the inference succeeds on an abstract (and not null) parse field, the field
  keeps the same overriding fields, its \<^verbatim>\<open>precise_types\<close> is the union of the
  \<^verbatim>\<open>precise_types\<close> of its overriding fields, and when its type is a list type its
  \<^verbatim>\<open>precise_element_types\<close> is the union of their \<^verbatim>\<open>precise_element_types\<close>.
\<close>

theorem abstract_field_precise_types_union:
  assumes "compute_precise_types F = Inr F'"
    and "field_abstract (fattrs F)" and "\<not> null (fattrs F)"
  shows "map fid (concrete_fields F') = map fid (concrete_fields F)
     \<and> (\<exists>types. precise_types F' = Inr types
           \<and> union_of precise_types (concrete_fields F') = Inr types)
     \<and> ((\<exists>ty. field_type (fattrs F) = Some ty \<and> is_list_type ty) \<longrightarrow>
          (\<exists>etypes. precise_element_types F' = Inr etypes
             \<and> union_of precise_element_types (concrete_fields F') = Inr etypes))"
proof -
  obtain i a cfs where F: "F = Field i a cfs" by (cases F)
  from assms F obtain ty cfs' types etypes where
    ty: "field_type a = Some ty"
    and loop: "update_from_concrete_fields (is_list_type ty) cfs {} {} = Inr (cfs', types, etypes)"
    and F': "F' = Field i (a\<lparr>precise_types_cache := Some types,
                precise_element_types_cache :=
                  (if is_list_type ty then Some etypes else None)\<rparr>) cfs'"
    by (auto simp: Let_def split: option.splits if_splits sum.splits prod.splits)
  from update_from_concrete_fields_union [OF loop] show ?thesis
    using F F' ty by (auto simp: precise_types_def precise_element_types_def)
qed

theorem abstract_field_precise_types_union_witness:
  "compute_precise_types example_abstract_field = Inr example_abstract_field_computed
   \<and> precise_types example_abstract_field_computed = Inr {11, 12, 13}
   \<and> union_of precise_types (concrete_fields example_abstract_field_computed)
        = Inr {11, 12, 13}"
proof -
  have c: "compute_precise_types example_abstract_field = Inr example_abstract_field_computed"
    by (auto simp: example_abstract_field_def example_abstract_field_computed_def
        example_concrete_field_def example_parser_def precise_types_def)
  have a: "field_abstract (fattrs example_abstract_field)"
    and n: "\<not> null (fattrs example_abstract_field)"
    by (simp_all add: example_abstract_field_def)
  have p: "precise_types example_abstract_field_computed = Inr {11, 12, 13}"
    by (simp add: example_abstract_field_computed_def precise_types_def)
  from abstract_field_precise_types_union [OF c a n] p c show ?thesis by auto
qed

lemma compute_precise_types_idem_aux:
  "(\<forall>f'. compute_precise_types f = Inr f' \<longrightarrow> compute_precise_types f' = Inr f')"
  "(\<forall>fs' types' etypes'.
      update_from_concrete_fields il fs types etypes = Inr (fs', types', etypes') \<longrightarrow>
      (\<exists>u v. types' = types \<union> u \<and> etypes' = (if il then etypes \<union> v else etypes)
         \<and> (\<forall>types0 etypes0. update_from_concrete_fields il fs' types0 etypes0
               = Inr (fs', types0 \<union> u, if il then etypes0 \<union> v else etypes0))))"
proof (induction f and il fs types etypes
    rule: compute_precise_types_update_from_concrete_fields.induct)
  case (1 i a cfs)
  show ?case
  proof (intro allI impI)
    fix f'
    assume c: "compute_precise_types (Field i a cfs) = Inr f'"
    then obtain ty where ty: "field_type a = Some ty"
      by (auto split: option.splits)
    show "compute_precise_types f' = Inr f'"
    proof (cases "\<not> null a \<and> field_abstract a")
      case False
      then show ?thesis
        using c ty by (auto simp: Let_def split: if_splits prod.splits)
    next
      case True
      with c ty obtain cfs' types etypes where
        oc: "overriding_computed a"
        and loop: "update_from_concrete_fields (is_list_type ty) cfs {} {}
                     = Inr (cfs', types, etypes)"
        and f': "f' = Field i (a\<lparr>precise_types_cache := Some types,
                  precise_element_types_cache :=
                    (if is_list_type ty then Some etypes else None)\<rparr>) cfs'"
        by (auto simp: Let_def split: if_splits sum.splits prod.splits)
      from "1.IH" [OF ty refl] True oc loop obtain u v where
        "types = {} \<union> u" "etypes = (if is_list_type ty then {} \<union> v else {})"
        "\<forall>types0 etypes0. update_from_concrete_fields (is_list_type ty) cfs' types0 etypes0
           = Inr (cfs', types0 \<union> u, if is_list_type ty then etypes0 \<union> v else etypes0)"
        by blast
      then show ?thesis
        using f' ty True oc by (simp add: Let_def)
    qed
  qed
next
  case (2 il types etypes)
  show ?case by (auto intro!: exI [of _ "{}"])
next
  case (3 il f fs types etypes)
  show ?case
  proof (intro allI impI)
    fix fs' types' etypes'
    assume c: "update_from_concrete_fields il (f # fs) types etypes = Inr (fs', types', etypes')"
    then obtain f1 t where
      f1: "compute_precise_types f = Inr f1" and t: "precise_types f1 = Inr t"
      by (auto split: sum.splits)
    from "3.IH"(1) f1 have f1_idem: "compute_precise_types f1 = Inr f1" by blast
    show "\<exists>u v. types' = types \<union> u \<and> etypes' = (if il then etypes \<union> v else etypes)
         \<and> (\<forall>types0 etypes0. update_from_concrete_fields il fs' types0 etypes0
               = Inr (fs', types0 \<union> u, if il then etypes0 \<union> v else etypes0))"
    proof (cases il)
      case True
      from c f1 t True obtain et rest where
        et: "precise_element_types f1 = Inr et"
        and rest: "update_from_concrete_fields il fs (types \<union> t) (etypes \<union> et)
                     = Inr (rest, types', etypes')"
        and fs': "fs' = f1 # rest"
        by (auto split: sum.splits)
      from "3.IH"(2) [OF f1 t True et] rest obtain u v where
        uv: "types' = (types \<union> t) \<union> u" "etypes' = (etypes \<union> et) \<union> v"
        "\<forall>types0 etypes0. update_from_concrete_fields il rest types0 etypes0
           = Inr (rest, types0 \<union> u, if il then etypes0 \<union> v else etypes0)"
        using True by auto
      have "types' = types \<union> (t \<union> u)" "etypes' = (if il then etypes \<union> (et \<union> v) else etypes)"
        using uv True by auto
      moreover have "\<forall>types0 etypes0. update_from_concrete_fields il fs' types0 etypes0
               = Inr (fs', types0 \<union> (t \<union> u), if il then etypes0 \<union> (et \<union> v) else etypes0)"
        using uv(3) fs' f1_idem t et True by (simp add: Un_assoc)
      ultimately show ?thesis by blast
    next
      case False
      from c f1 t False obtain rest where
        rest: "update_from_concrete_fields il fs (types \<union> t) etypes
                     = Inr (rest, types', etypes')"
        and fs': "fs' = f1 # rest"
        by (auto split: sum.splits)
      from "3.IH"(3) [OF f1 t False] rest obtain u v where
        uv: "types' = (types \<union> t) \<union> u" "etypes' = etypes"
        "\<forall>types0 etypes0. update_from_concrete_fields il rest types0 etypes0
           = Inr (rest, types0 \<union> u, if il then etypes0 \<union> v else etypes0)"
        using False by auto
      have "types' = types \<union> (t \<union> u)" "etypes' = (if il then etypes \<union> v else etypes)"
        using uv False by auto
      moreover have "\<forall>types0 etypes0. update_from_concrete_fields il fs' types0 etypes0
               = Inr (fs', types0 \<union> (t \<union> u), if il then etypes0 \<union> v else etypes0)"
        using uv(3) fs' f1_idem t False by (simp add: Un_assoc)
      ultimately show ?thesis by blast
    qed
  qed
qed

lemma compute_precise_types_idem:
  "compute_precise_types f = Inr f' \<Longrightarrow> compute_precise_types f' = Inr f'"
  using compute_precise_types_idem_aux(1) by blast

lemma compute_fields_idem:
  "compute_fields fs = Inr fs' \<Longrightarrow> compute_fields fs' = Inr fs'"
proof (induction fs arbitrary: fs')
  case Nil
  then show ?case by simp
next
  case (Cons f fs)
  then show ?case
    by (auto split: sum.splits dest: compute_precise_types_idem)
qed

lemma compute_precise_types_forget_aux:
  "compute_precise_types (forget_field f) = compute_precise_types f"
  "update_from_concrete_fields il (map forget_field fs) types etypes
     = update_from_concrete_fields il fs types etypes"
proof (induction f and il fs types etypes
    rule: compute_precise_types_update_from_concrete_fields.induct)
  case (1 i a cfs)
  show ?case
  proof (cases "field_type a")
    case None
    then show ?thesis by simp
  next
    case (Some ty)
    show ?thesis
    proof (cases "\<not> null a \<and> field_abstract a")
      case False
      with Some show ?thesis by (auto simp: Let_def split: prod.splits)
    next
      case True
      show ?thesis
      proof (cases "overriding_computed a")
        case False
        with Some True show ?thesis by (simp add: Let_def)
      next
        case oc: True
        from "1.IH" [OF Some refl] True oc
        have "update_from_concrete_fields (is_list_type ty) (map forget_field cfs) {} {}
            = update_from_concrete_fields (is_list_type ty) cfs {} {}"
          by simp
        with Some True oc show ?thesis
          by (simp add: Let_def split: sum.splits prod.splits)
      qed
    qed
  qed
next
  case (2 il types etypes)
  show ?case by simp
next
  case (3 il f fs types etypes)
  show ?case
  proof (cases "compute_precise_types f")
    case (Inl e)
    with "3.IH"(1) show ?thesis by simp
  next
    case (Inr f1)
    show ?thesis
    proof (cases "precise_types f1")
      case (Inl e)
      with Inr "3.IH"(1) show ?thesis by simp
    next
      case t: (Inr t)
      show ?thesis
      proof (cases il)
        case False
        with Inr t "3.IH"(1) "3.IH"(3) [OF Inr t False] show ?thesis by simp
      next
        case True
        show ?thesis
        proof (cases "precise_element_types f1")
          case (Inl e)
          with Inr t True "3.IH"(1) show ?thesis by simp
        next
          case et: (Inr et)
          with Inr t True "3.IH"(1) "3.IH"(2) [OF Inr t True et] show ?thesis by simp
        qed
      qed
    qed
  qed
qed

lemma compute_fields_forget:
  "compute_fields (map forget_field fs) = compute_fields fs"
  by (induction fs) (simp_all add: compute_precise_types_forget_aux(1) cong: sum.case_cong)

lemma share_field_idem:
  "share_field written (share_field written f) = share_field written f"
proof (cases "find (\<lambda>w. fid w = fid f) written")
  case None
  then show ?thesis by (simp add: share_field_def)
next
  case (Some w)
  then have "fid w = fid f" by (auto simp: find_Some_iff)
  with Some show ?thesis by (simp add: share_field_def)
qed

lemma share_fields_idem:
  "share_fields written (share_fields written n) = share_fields written n"
  by (induction written n rule: share_fields.induct) (simp add: share_field_idem)

text \<open>
  C5 (as amended). The inference pass is idempotent: when it succeeds on a node, running it
  again on the result succeeds and changes nothing, neither in the node nor in the fields
  its subclasses share. Only a list node is skipped: when its
  \<^verbatim>\<open>precise_list_element_types\<close> is already set the pass returns the node as it is,
  whatever its subclasses and parsers are. A node that is not a list is computed again on
  every run: the result is the same when the caches of its fields, and of the fields
  overriding them, are emptied first, so it never depends on a set computed before.
\<close>

theorem compute_precise_fields_types_idempotent:
  "(compute_precise_fields_types N = Inr N' \<longrightarrow> compute_precise_fields_types N' = Inr N')
   \<and> (is_list (nattrs N) \<and> precise_list_element_types (nattrs N) \<noteq> None \<longrightarrow>
        compute_precise_fields_types N = Inr N)
   \<and> (\<not> is_list (nattrs N) \<longrightarrow>
        compute_precise_fields_types (map_parse_fields forget_field N)
          = compute_precise_fields_types N)"
proof (cases N)
  case (ASTNode i a subs)
  show ?thesis
  proof (cases "is_list a")
    case True
    then show ?thesis
      using ASTNode by (auto split: sum.splits prod.splits)
  next
    case False
    then show ?thesis
      using ASTNode
      by (auto simp: map_parse_fields_def compute_fields_forget share_fields_idem
          split: sum.splits dest: compute_fields_idem)
  qed
qed

theorem compute_precise_fields_types_idempotent_witness:
  "compute_precise_fields_types example_base_node = Inr example_base_node_computed
   \<and> compute_precise_fields_types example_base_node_computed = Inr example_base_node_computed
   \<and> is_list (nattrs example_list_node)
   \<and> precise_list_element_types (nattrs example_list_node) \<noteq> None
   \<and> compute_precise_fields_types example_list_node = Inr example_list_node
   \<and> \<not> is_list (nattrs example_grown_node)
   \<and> compute_precise_fields_types (map_parse_fields forget_field example_grown_node)
       = compute_precise_fields_types example_grown_node"
proof -
  have c: "compute_precise_fields_types example_base_node = Inr example_base_node_computed"
    by (simp add: example_base_node_def example_base_node_computed_def
        example_abstract_field_def example_abstract_field_computed_def
        example_concrete_field_def example_parser_def precise_types_def share_field_def
        Un_commute insert_commute)
  have l: "is_list (nattrs example_list_node)"
    "precise_list_element_types (nattrs example_list_node) \<noteq> None"
    by (simp_all add: example_list_node_def)
  have g: "\<not> is_list (nattrs example_grown_node)"
    by (simp add: example_grown_node_def example_computed_node_def map_parse_fields_def)
  show ?thesis
    using compute_precise_fields_types_idempotent
        [of example_base_node example_base_node_computed]
      compute_precise_fields_types_idempotent [of example_list_node example_list_node]
      compute_precise_fields_types_idempotent [of example_grown_node example_grown_node]
      c l g
    by simp
qed

text \<open>
  C5 (as stated) fails for a node that is not a list. The first run on
  \<^const>\<open>example_field_node\<close> computes the set of its field; the grammar then gives the
  field one more parser, as \<^verbatim>\<open>check_inferred_field_types\<close> does; in the node that holds
  the computed set the next run is not skipped: it computes the set again and changes it.
\<close>

theorem computed_node_not_skipped_counterexample:
  "compute_precise_fields_types example_field_node = Inr example_computed_node
   \<and> map precise_types (parse_fields (nattrs example_grown_node)) = [Inr {11}]
   \<and> compute_precise_fields_types example_grown_node = Inr example_regrown_node
   \<and> example_regrown_node \<noteq> example_grown_node"
  by (auto simp: example_field_node_def example_computed_node_def example_grown_node_def
      example_regrown_node_def example_concrete_field_def example_parser_def
      map_parse_fields_def precise_types_def)
section \<open>Properties of the memoized derived types\<close>

lemma new_type_caches:
  "new_type obj r = (t, r') \<Longrightarrow>
     array_cache r' = array_cache r \<and> list_cache r' = list_cache r
     \<and> entity_cache r' = entity_cache r"
  by (auto simp: new_type_def)

lemma entity_info_caches:
  "entity_info r = (t, r') \<Longrightarrow>
     array_cache r' = array_cache r \<and> list_cache r' = list_cache r
     \<and> entity_cache r' = entity_cache r"
  by (auto simp: entity_info_def new_type_def split: option.splits)

lemma array_caches:
  "array self r = Inr (t, r') \<Longrightarrow>
     array_cache r' self = Some t
     \<and> (\<forall>x a. array_cache r x = Some a \<longrightarrow> array_cache r' x = Some a)
     \<and> list_cache r' = list_cache r \<and> entity_cache r' = entity_cache r"
  by (auto simp: array_def new_type_def split: option.splits)

lemma entity_caches:
  "entity self r = Inr (t, r') \<Longrightarrow>
     entity_cache r' self = Some t
     \<and> (\<forall>x a. entity_cache r x = Some a \<longrightarrow> entity_cache r' x = Some a)
     \<and> list_cache r' = list_cache r \<and> array_cache r' = array_cache r"
  by (auto simp: entity_def entity_info_def new_type_def split: option.splits)

lemma list_type_caches:
  "list_type ctx self r = Inr (t, r') \<Longrightarrow>
     list_cache r' self = Some t
     \<and> (\<forall>x a. list_cache r x = Some a \<longrightarrow> list_cache r' x = Some a)
     \<and> (\<forall>x a. entity_cache r x = Some a \<longrightarrow> entity_cache r' x = Some a)
     \<and> array_cache r' = array_cache r"
  by (auto simp: list_type_def entity_def entity_info_def new_type_def
      split: option.splits if_splits)

lemma do_request_caches:
  assumes "do_request q r = Inr (t, r')"
  shows "(\<forall>x a. array_cache r x = Some a \<longrightarrow> array_cache r' x = Some a)
     \<and> (\<forall>x a. list_cache r x = Some a \<longrightarrow> list_cache r' x = Some a)
     \<and> (\<forall>x a. entity_cache r x = Some a \<longrightarrow> entity_cache r' x = Some a)"
proof (cases q)
  case (Array x)
  with assms array_caches [of x r t r'] show ?thesis by auto
next
  case (List c x)
  with assms list_type_caches [of c x r t r'] show ?thesis by auto
next
  case (Entity x)
  with assms entity_caches [of x r t r'] show ?thesis by auto
qed

lemma do_requests_caches:
  "(\<forall>x a. array_cache r x = Some a \<longrightarrow> array_cache (do_requests qs r) x = Some a)
     \<and> (\<forall>x a. list_cache r x = Some a \<longrightarrow> list_cache (do_requests qs r) x = Some a)
     \<and> (\<forall>x a. entity_cache r x = Some a \<longrightarrow> entity_cache (do_requests qs r) x = Some a)"
proof (induction qs arbitrary: r)
  case Nil
  then show ?case by simp
next
  case (Cons q qs)
  show ?case
  proof (cases "do_request q r")
    case (Inl e)
    then show ?thesis using Cons.IH [of r] by simp
  next
    case (Inr p)
    obtain t r' where p: "p = (t, r')" by (cases p)
    from do_request_caches [OF Inr [unfolded p]] Cons.IH [of r'] show ?thesis
      using Inr p by simp
  qed
qed

text \<open>
  C1. Once a derivation has returned an instance, the same derivation returns that very
  instance (the same identity) and leaves the repository untouched, after any number of
  further requests for arrays, lists and entities of any types, with or without a compile
  context.
\<close>

theorem derived_types_memoized:
  "(array T r = Inr (a, r') \<longrightarrow>
      array T (do_requests qs r') = Inr (a, do_requests qs r'))
   \<and> (list_type ctx N r = Inr (l, r') \<longrightarrow>
      list_type ctx' N (do_requests qs r') = Inr (l, do_requests qs r'))
   \<and> (entity N r = Inr (e, r') \<longrightarrow>
      entity N (do_requests qs r') = Inr (e, do_requests qs r'))"
proof (intro conjI impI)
  assume "array T r = Inr (a, r')"
  then have "array_cache r' T = Some a" by (simp add: array_caches)
  then have "array_cache (do_requests qs r') T = Some a"
    using do_requests_caches [of r' qs] by blast
  then show "array T (do_requests qs r') = Inr (a, do_requests qs r')"
    by (simp add: array_def)
next
  assume "list_type ctx N r = Inr (l, r')"
  then have "list_cache r' N = Some l" by (simp add: list_type_caches)
  then have "list_cache (do_requests qs r') N = Some l"
    using do_requests_caches [of r' qs] by blast
  then show "list_type ctx' N (do_requests qs r') = Inr (l, do_requests qs r')"
    by (simp add: list_type_def)
next
  assume "entity N r = Inr (e, r')"
  then have "entity_cache r' N = Some e" by (simp add: entity_caches)
  then have "entity_cache (do_requests qs r') N = Some e"
    using do_requests_caches [of r' qs] by blast
  then show "entity N (do_requests qs r') = Inr (e, do_requests qs r')"
    by (simp add: entity_def)
qed

theorem derived_types_memoized_witness:
  "(case array 2 example_repo of
      Inl ex \<Rightarrow> False
    | Inr (a, r') \<Rightarrow>
        a = 3 \<and> array 2 (do_requests [List True 2, Entity 2, Array 0, Array 2] r')
                 = Inr (3, do_requests [List True 2, Entity 2, Array 0, Array 2] r'))
   \<and> (case list_type False 2 example_repo of
      Inl ex \<Rightarrow> False
    | Inr (l, r') \<Rightarrow>
        l = 3 \<and> list_type True 2 (do_requests [Array 2, Entity 2, List True 0] r')
                 = Inr (3, do_requests [Array 2, Entity 2, List True 0] r'))
   \<and> (case entity 2 example_repo of
      Inl ex \<Rightarrow> False
    | Inr (e, r') \<Rightarrow>
        e = 4 \<and> entity 2 (do_requests [Array 2, List False 2, Entity 0] r')
                 = Inr (4, do_requests [Array 2, List False 2, Entity 0] r'))"
proof -
  obtain ra where ra: "array 2 example_repo = Inr (3, ra)"
    by (simp add: array_def example_repo_def new_type_def lookup_obj_def)
  obtain rl where rl: "list_type False 2 example_repo = Inr (3, rl)"
    by (simp add: list_type_def entity_def entity_info_def example_repo_def new_type_def
        lookup_obj_def)
  obtain re where re: "entity 2 example_repo = Inr (4, re)"
    by (simp add: entity_def entity_info_def example_repo_def new_type_def lookup_obj_def)
  show ?thesis
    using derived_types_memoized
        [where T = 2 and r = example_repo and a = 3 and r' = ra
           and qs = "[List True 2, Entity 2, Array 0, Array 2]"]
      derived_types_memoized
        [where N = 2 and r = example_repo and l = 3 and r' = rl and ctx = False and ctx' = True
           and qs = "[Array 2, Entity 2, List True 0]"]
      derived_types_memoized
        [where N = 2 and r = example_repo and e = 4 and r' = re
           and qs = "[Array 2, List False 2, Entity 0]"]
      ra rl re
    by simp
qed

section \<open>Properties of deferred type references\<close>


























end
